theory Spec2Isabelle
  imports Complex_Main "HOL-Library.AList" "HOL-Library.Multiset" "HOL-Library.Sublist"
    "HOL-Library.List_Lexorder" "HOL-Library.Char_ord"
begin

section \<open>Python values\<close>

text \<open>The exceptions that the modelled code can meet; all are subclasses of
  \<open>Exception\<close>.\<close>

datatype exn =
    ConnectionError | Timeout | HTTPError | JSONDecodeError
  | IndexError | TypeError | UnknownTimeZoneError

subsection \<open>JSON objects as Python sees them\<close>

text \<open>
  A member of a decoded JSON object is missing, \<open>null\<close> (Python \<open>None\<close>) or a value.
  \<open>d.get(k)\<close> answers \<open>None\<close> in the first two cases; \<open>d.get(k, default)\<close> answers the
  default only when the key is missing, and \<open>None\<close> when it is \<open>null\<close>.
  Numbers are Python integers (unbounded, exact).
\<close>

datatype 'a field = Absent | Null | Val 'a

fun dict_get :: "'a field \<Rightarrow> 'a option" where
  "dict_get (Val v) = Some v"
| "dict_get Absent = None"
| "dict_get Null = None"

fun dict_get_default :: "'a field \<Rightarrow> 'a \<Rightarrow> 'a option" where
  "dict_get_default Absent d = Some d"
| "dict_get_default Null d = None"
| "dict_get_default (Val v) d = Some v"

text \<open>Truth value of an optional string, and Python's \<open>a or b\<close> on such values.\<close>

definition truthy :: "string option \<Rightarrow> bool" where
  "truthy x = (case x of None \<Rightarrow> False | Some s \<Rightarrow> s \<noteq> [])"

definition py_or :: "string option \<Rightarrow> string option \<Rightarrow> string option" where
  "py_or a b = (if truthy a then a else b)"

text \<open>\<open>s.replace(c, r)\<close> for a one-character pattern \<open>c\<close>.\<close>

definition str_replace :: "char \<Rightarrow> string \<Rightarrow> string \<Rightarrow> string" where
  "str_replace c r s = concat (map (\<lambda>x. if x = c then r else [x]) s)"

section \<open>Raw protocol records of the fees and revenue overview\<close>

record protocol =
  p_parentProtocol :: "string field"
  p_slug :: "string field"
  p_displayName :: "string field"
  p_name :: "string field"
  p_logo :: "string field"
  p_category :: "string field"
  p_numbers :: "string \<Rightarrow> int field"

text \<open>
  One value of the dictionary \<open>grouped_data\<close>. \<open>logoBase64\<close> is the key that
  \<open>create_composite_image\<close> adds later; \<open>None\<close> there means the key is not set.
\<close>

record group =
  name :: "string option"
  logo :: "string option"
  category :: "string option"
  fees :: int
  change :: "int option"
  max_fees :: int
  logoBase64 :: "string option"

text \<open>
  A Python dictionary keeps its keys in insertion order and \<open>list(d.values())\<close> reads
  them in that order, so \<open>grouped_data\<close> is an association list: a new key goes to the
  end, an existing key is updated in place (\<open>AList.update\<close>).
\<close>

type_synonym grouped = "(string option \<times> group) list"

section \<open>\<open>fetch_fees_data\<close> (and, with the field called revenue, \<open>fetch_revenue_data\<close>)\<close>

definition interval_map :: "string \<Rightarrow> string" where
  "interval_map interval =
     (if interval = ''24h'' then ''total24h''
      else if interval = ''7d'' then ''total7d''
      else if interval = ''30d'' then ''total30d''
      else ''total24h'')"

definition group_key :: "protocol \<Rightarrow> string option" where
  "group_key p = py_or (dict_get (p_parentProtocol p)) (dict_get (p_slug p))"

definition best_name :: "protocol \<Rightarrow> string option" where
  "best_name p = py_or (dict_get (p_displayName p)) (dict_get_default (p_name p) ''Unknown'')"

definition change_field :: "string \<Rightarrow> string" where
  "change_field interval =
     ''change_'' @ str_replace CHR ''d'' (''over'' @ str_replace CHR ''d'' ''d'' interval) interval"

definition fresh_group :: "protocol \<Rightarrow> group" where
  "fresh_group p =
     \<lparr> name = best_name p,
       logo = dict_get_default (p_logo p) '''',
       category = dict_get_default (p_category p) ''N/A'',
       fees = 0,
       change = Some 0,
       max_fees = - 1,
       logoBase64 = None \<rparr>"

text \<open>The two statements after the insertion: add the fees, then refresh the metadata
  when this component is larger than the largest seen so far.\<close>

definition absorb :: "string \<Rightarrow> protocol \<Rightarrow> int \<Rightarrow> group \<Rightarrow> group" where
  "absorb interval p f g =
     (let g1 = g\<lparr>fees := fees g + f\<rparr>
      in if f > max_fees g1
         then g1\<lparr> max_fees := f,
                  name := best_name p,
                  logo := dict_get_default (p_logo p) '''',
                  category := dict_get_default (p_category p) ''N/A'',
                  change := dict_get_default (p_numbers p (change_field interval)) 0 \<rparr>
         else g1)"

text \<open>
  One pass of the loop body. A record without the metric, or with a metric that is not
  positive, changes nothing. Otherwise the entry of the record's key is the one already
  in the dictionary, or the fresh one that the body enters first; the two statements of
  \<open>absorb\<close> are applied to it and the entry is written back: in place for a key that was
  there, at the end for a new key.
\<close>

definition fold_step :: "string \<Rightarrow> grouped \<Rightarrow> protocol \<Rightarrow> grouped" where
  "fold_step interval grouped_data p =
     (case dict_get (p_numbers p (interval_map interval)) of
        None \<Rightarrow> grouped_data
      | Some f \<Rightarrow>
          if f > 0 then
            let k = group_key p;
                g = (case map_of grouped_data k of None \<Rightarrow> fresh_group p | Some g \<Rightarrow> g)
            in AList.update k (absorb interval p f g) grouped_data
          else grouped_data)"

fun fees_loop :: "string \<Rightarrow> grouped \<Rightarrow> protocol list \<Rightarrow> grouped" where
  "fees_loop interval grouped_data [] = grouped_data"
| "fees_loop interval grouped_data (p # ps) =
     fees_loop interval (fold_step interval grouped_data p) ps"

text \<open>\<open>list.sort(key=fees, reverse=True)\<close> is stable: equal keys keep their order.\<close>

definition sort_by_fees_desc :: "group list \<Rightarrow> group list" where
  "sort_by_fees_desc xs = sort_key (\<lambda>g. - fees g) xs"

text \<open>The request either raises (caught: the function returns the empty list) or
  yields the list under the key \<open>protocols\<close>.\<close>

definition fetch_fees_data :: "exn + protocol list \<Rightarrow> string \<Rightarrow> group list" where
  "fetch_fees_data response interval =
     (case response of
        Inl e \<Rightarrow> []
      | Inr protocols \<Rightarrow>
          take 10 (sort_by_fees_desc (map snd (fees_loop interval [] protocols))))"


section \<open>\<open>fetch_prediction_market_data\<close>\<close>

text \<open>
  A record of the protocols list. \<open>chainTvls\<close> is an object of numbers (a record without
  it reads as the empty object); the numbers are taken exactly, as rationals.
\<close>

record llama_protocol =
  l_category :: "string field"
  l_chainTvls :: "string \<Rightarrow> rat field"
  l_parentProtocol :: "string field"
  l_slug :: "string field"
  l_name :: "string field"
  l_logo :: "string field"
  l_change_1d :: "rat field"

text \<open>One value of \<open>grouped_data\<close> there; the keys carry the prefix \<open>pm_\<close> where the
  fees dictionary has a key of the same name.\<close>

record pm_group =
  pm_name :: "string option"
  pm_logo :: "string option"
  pm_category :: "string option"
  tvl :: rat
  pm_change :: "rat option"
  max_tvl :: rat
  pm_slug :: "string option"

type_synonym pm_grouped = "(string option \<times> pm_group) list"

text \<open>\<open>a or b\<close> on optional numbers: \<open>None\<close> and zero are false.\<close>

definition num_or :: "rat option \<Rightarrow> rat option \<Rightarrow> rat option" where
  "num_or a b = (case a of None \<Rightarrow> b | Some x \<Rightarrow> if x = 0 then b else Some x)"

definition bsc_tvl_of :: "llama_protocol \<Rightarrow> rat option" where
  "bsc_tvl_of p = num_or (dict_get (l_chainTvls p ''Binance'')) (dict_get (l_chainTvls p ''BSC''))"

definition pm_group_key :: "llama_protocol \<Rightarrow> string option" where
  "pm_group_key p = py_or (dict_get (l_parentProtocol p)) (dict_get (l_slug p))"

definition pm_fresh_group :: "llama_protocol \<Rightarrow> pm_group" where
  "pm_fresh_group p =
     \<lparr> pm_name = dict_get_default (l_name p) ''Unknown'',
       pm_logo = dict_get_default (l_logo p) '''',
       pm_category = dict_get_default (l_category p) '''',
       tvl = 0,
       pm_change = Some 0,
       max_tvl = - 1,
       pm_slug = dict_get (l_slug p) \<rparr>"

definition pm_absorb :: "llama_protocol \<Rightarrow> rat \<Rightarrow> pm_group \<Rightarrow> pm_group" where
  "pm_absorb p bsc_tvl g =
     (let g1 = g\<lparr>tvl := tvl g + bsc_tvl\<rparr>
      in if bsc_tvl > max_tvl g1
         then g1\<lparr> max_tvl := bsc_tvl,
                  pm_name := dict_get_default (l_name p) ''Unknown'',
                  pm_logo := dict_get_default (l_logo p) '''',
                  pm_category := dict_get_default (l_category p) '''',
                  pm_change := dict_get_default (l_change_1d p) 0 \<rparr>
         else g1)"

text \<open>The loop body: records of another category are passed over, then the body
  goes as in the fees loop, with the threshold 100.\<close>

definition pm_step :: "pm_grouped \<Rightarrow> llama_protocol \<Rightarrow> pm_grouped" where
  "pm_step grouped_data p =
     (if dict_get_default (l_category p) '''' \<noteq> Some ''Prediction Market'' then grouped_data
      else
        (case bsc_tvl_of p of
           None \<Rightarrow> grouped_data
         | Some bsc_tvl \<Rightarrow>
             if bsc_tvl > 100 then
               let k = pm_group_key p;
                   g = (case map_of grouped_data k of None \<Rightarrow> pm_fresh_group p | Some g \<Rightarrow> g)
               in AList.update k (pm_absorb p bsc_tvl g) grouped_data
             else grouped_data))"

fun pm_loop :: "pm_grouped \<Rightarrow> llama_protocol list \<Rightarrow> pm_grouped" where
  "pm_loop grouped_data [] = grouped_data"
| "pm_loop grouped_data (p # ps) = pm_loop (pm_step grouped_data p) ps"

definition sort_by_tvl_desc :: "pm_group list \<Rightarrow> pm_group list" where
  "sort_by_tvl_desc xs = sort_key (\<lambda>g. - tvl g) xs"

definition fetch_prediction_market_data :: "exn + llama_protocol list \<Rightarrow> pm_group list" where
  "fetch_prediction_market_data response =
     (case response of
        Inl e \<Rightarrow> []
      | Inr data \<Rightarrow> sort_by_tvl_desc (map snd (pm_loop [] data)))"

section \<open>Number formatting\<close>

text \<open>
  The result of an f-string \<open>f"{prefix}{x:.Nf}{suffix}"\<close> is kept as its parts: the
  number \<open>x\<close> that is handed to the formatter (exactly, as a rational), the number of
  decimals and the text around it. The digits that Python prints for \<open>x\<close> are not
  spelled out.
\<close>

datatype formatted = Literal string | Fixed string rat nat string

definition format_fees :: "rat option \<Rightarrow> formatted" where
  "format_fees v =
     (case v of
        None \<Rightarrow> Literal ''$0''
      | Some x \<Rightarrow>
          if x = 0 then Literal ''$0''
          else if x \<ge> 1000000 then Fixed ''$'' (x / 1000000) 2 ''M''
          else if x \<ge> 1000 then Fixed ''$'' (x / 1000) 1 ''K''
          else Fixed ''$'' x 0 '''')"

text \<open>\<open>format_revenue\<close> is the same code as \<open>format_fees\<close>. \<open>format_currency\<close> is the
  formatter of the Dune overview poster.\<close>

definition format_currency :: "rat option \<Rightarrow> formatted" where
  "format_currency v =
     (case v of
        None \<Rightarrow> Literal ''$0''
      | Some x \<Rightarrow>
          if x \<ge> 1000000000 then Fixed ''$'' (x / 1000000000) 2 ''B''
          else if x \<ge> 1000000 then Fixed ''$'' (x / 1000000) 1 ''M''
          else if x \<ge> 1000 then Fixed ''$'' (x / 1000) 1 ''K''
          else Fixed ''$'' x 2 '''')"

section \<open>The asset resolver \<open>fetch_logo_as_base64\<close>\<close>

record response =
  status_code :: int
  content_type :: "string option"
  content :: string

text \<open>
  \<open>requests.get(url, timeout=10)\<close> raises or answers; \<open>base64.b64encode\<close> is the
  library's encoder. The body of the \<open>try\<close> returns the data URI on status 200 and
  falls through otherwise; the handler catches every \<open>Exception\<close> and falls through to
  the final \<open>return ""\<close>.
\<close>

type_synonym http = "string \<Rightarrow> exn + response"

definition logo_try_body :: "http \<Rightarrow> (string \<Rightarrow> string) \<Rightarrow> string \<Rightarrow> exn + string option" where
  "logo_try_body requests_get b64encode url =
     (case requests_get url of
        Inl e \<Rightarrow> Inl e
      | Inr r \<Rightarrow>
          if status_code r = 200
          then Inr (Some (''data:''
                  @ (case content_type r of None \<Rightarrow> ''image/png'' | Some t \<Rightarrow> t)
                  @ '';base64,'' @ b64encode (content r)))
          else Inr None)"

definition fetch_logo_as_base64 ::
  "http \<Rightarrow> (string \<Rightarrow> string) \<Rightarrow> string option \<Rightarrow> exn + string" where
  "fetch_logo_as_base64 requests_get b64encode url =
     (case url of
        None \<Rightarrow> Inr ''''
      | Some u \<Rightarrow>
          if u = [] then Inr ''''
          else (case logo_try_body requests_get b64encode u of
                  Inr (Some s) \<Rightarrow> Inr s
                | Inr None \<Rightarrow> Inr ''''
                | Inl e \<Rightarrow> Inr ''''))"

text \<open>The first loop of \<open>create_composite_image\<close>: every entry gets the key
  \<open>logoBase64\<close>. An exception of the resolver would end the loop.\<close>

fun attach_logos ::
  "http \<Rightarrow> (string \<Rightarrow> string) \<Rightarrow> group list \<Rightarrow> exn + group list" where
  "attach_logos requests_get b64encode [] = Inr []"
| "attach_logos requests_get b64encode (p # ps) =
     (case fetch_logo_as_base64 requests_get b64encode (logo p) of
        Inl e \<Rightarrow> Inl e
      | Inr s \<Rightarrow>
          (case attach_logos requests_get b64encode ps of
             Inl e \<Rightarrow> Inl e
           | Inr ps' \<Rightarrow> Inr (p\<lparr>logoBase64 := Some s\<rparr> # ps')))"

text \<open>
  The logo step of \<open>fetch_dapps_ranking_data\<close>, for one entry: \<open>logo_b64\<close> starts
  empty; inside a \<open>try\<close> a protocol-relative or root-relative reference is made absolute,
  the page's request context fetches it and, on status 200, the data URI is stored. The
  handler is \<open>except Exception: pass\<close>.
\<close>

definition absolute_logo_url :: "string \<Rightarrow> string" where
  "absolute_logo_url logo_url =
     (if prefix ''//'' logo_url then ''https:'' @ logo_url
      else if prefix ''/'' logo_url then ''https://dappbay.bnbchain.org'' @ logo_url
      else logo_url)"

definition dapp_logo_try_body :: "http \<Rightarrow> (string \<Rightarrow> string) \<Rightarrow> string \<Rightarrow> exn + string option" where
  "dapp_logo_try_body page_request_get b64encode logo_url =
     (case page_request_get (absolute_logo_url logo_url) of
        Inl e \<Rightarrow> Inl e
      | Inr r \<Rightarrow>
          if status_code r = 200
          then Inr (Some (''data:image/png;base64,'' @ b64encode (content r)))
          else Inr None)"

definition dapp_logo_base64 ::
  "http \<Rightarrow> (string \<Rightarrow> string) \<Rightarrow> string option \<Rightarrow> exn + string" where
  "dapp_logo_base64 page_request_get b64encode logo_url =
     (case logo_url of
        None \<Rightarrow> Inr ''''
      | Some u \<Rightarrow>
          if u = [] then Inr ''''
          else (case dapp_logo_try_body page_request_get b64encode u of
                  Inr (Some s) \<Rightarrow> Inr s
                | Inr None \<Rightarrow> Inr ''''
                | Inl e \<Rightarrow> Inr ''''))"

section \<open>The caption \<open>get_caption_text\<close>\<close>

text \<open>\<open>str.upper\<close> on ASCII letters.\<close>

definition upper_char :: "char \<Rightarrow> char" where
  "upper_char c =
     (let n = (of_char c :: nat) in if 97 \<le> n \<and> n \<le> 122 then char_of (n - 32) else c)"

definition caption_label :: "string \<Rightarrow> string" where
  "caption_label interval =
     (if interval = ''24h'' then ''24H''
      else if interval = ''7d'' then ''7D''
      else if interval = ''30d'' then ''30D''
      else map upper_char interval)"

text \<open>One line \<open>f"{i+1}. {p['name']} ({format_fees(p['fees'])})"\<close> of the list, and the
  caption: the date, the interval label and the lines, in the fixed text of the template.\<close>

record caption_line =
  line_rank :: nat
  line_name :: "string option"
  line_fees :: formatted

record caption =
  cap_date :: string
  cap_label :: string
  cap_lines :: "caption_line list"

definition get_caption_text :: "group list \<Rightarrow> string \<Rightarrow> string \<Rightarrow> caption" where
  "get_caption_text protocols date_str interval =
     \<lparr> cap_date = date_str,
       cap_label = caption_label interval,
       cap_lines =
         map (\<lambda>(i, p). \<lparr> line_rank = i + 1, line_name = name p,
                          line_fees = format_fees (Some (of_int (fees p))) \<rparr>)
           (enumerate 0 (take 10 protocols)) \<rparr>"

section \<open>The slot loop of \<open>create_composite_image\<close>\<close>

definition LEFT_LOGO_X :: rat where "LEFT_LOGO_X = 718"
definition RIGHT_LOGO_X :: rat where "RIGHT_LOGO_X = 2473"
definition LOGO_SIZE :: rat where "LOGO_SIZE = 195"
definition RADIUS :: rat where "RADIUS = LOGO_SIZE / 2"

definition Y_CENTERS_LEFT :: "rat list" where
  "Y_CENTERS_LEFT = [395, 738, 1078, 1418, 1775]"
definition Y_CENTERS_RIGHT :: "rat list" where
  "Y_CENTERS_RIGHT = [378, 718, 1063, 1398, 1758]"
definition Y_POSITIONS_LEFT :: "rat list" where
  "Y_POSITIONS_LEFT = map (\<lambda>y. y - RADIUS) Y_CENTERS_LEFT"
definition Y_POSITIONS_RIGHT :: "rat list" where
  "Y_POSITIONS_RIGHT = map (\<lambda>y. y - RADIUS) Y_CENTERS_RIGHT"

text \<open>\<open>xs[i]\<close>: a negative index counts from the end, an index out of range raises.\<close>

definition py_index :: "'a list \<Rightarrow> int \<Rightarrow> exn + 'a" where
  "py_index xs i =
     (if 0 \<le> i \<and> i < int (length xs) then Inr (xs ! nat i)
      else if i < 0 \<and> - int (length xs) \<le> i then Inr (xs ! nat (int (length xs) + i))
      else Inl IndexError)"

text \<open>\<open>protocol.get("logoBase64") or protocol.get("logo") or ""\<close>.\<close>

definition img_src_of :: "group \<Rightarrow> string" where
  "img_src_of p =
     (case py_or (py_or (logoBase64 p) (logo p)) (Some '''') of
        None \<Rightarrow> '''' | Some s \<Rightarrow> s)"

record placement =
  is_left :: bool
  row_idx :: int
  logo_left :: rat
  logo_top :: rat
  text_left :: rat
  img_src :: string
  shown_name :: "string option"
  shown_category :: "string option"
  fees_formatted :: formatted

definition place :: "int \<Rightarrow> group \<Rightarrow> exn + placement" where
  "place i protocol =
     (let left = (i < 5);
          row = (if left then i else i - 5);
          center_x = (if left then LEFT_LOGO_X else RIGHT_LOGO_X)
      in case (if left then py_index Y_POSITIONS_LEFT row else py_index Y_POSITIONS_RIGHT row) of
           Inl e \<Rightarrow> Inl e
         | Inr y_top \<Rightarrow>
             Inr \<lparr> is_left = left, row_idx = row,
                   logo_left = center_x - RADIUS,
                   logo_top = y_top,
                   text_left = center_x + (LOGO_SIZE / 2) + 50,
                   img_src = img_src_of protocol,
                   shown_name = name protocol,
                   shown_category = category protocol,
                   fees_formatted = format_fees (Some (of_int (fees protocol))) \<rparr>)"

text \<open>\<open>for i, protocol in enumerate(protocols): if i >= 10: break ...\<close>, started
  with \<open>i = 0\<close>.\<close>

fun slot_loop :: "int \<Rightarrow> group list \<Rightarrow> exn + placement list" where
  "slot_loop i [] = Inr []"
| "slot_loop i (protocol # rest) =
     (if i \<ge> 10 then Inr []
      else (case place i protocol of
              Inl e \<Rightarrow> Inl e
            | Inr s \<Rightarrow>
                (case slot_loop (i + 1) rest of
                   Inl e \<Rightarrow> Inl e
                 | Inr ss \<Rightarrow> Inr (s # ss))))"

section \<open>\<open>run_logic\<close>\<close>




record clock =
  date_str :: string
  isoformat :: string


section \<open>Vocabulary of the properties\<close>

definition metric_value :: "string \<Rightarrow> protocol \<Rightarrow> int" where
  "metric_value interval p =
     (case dict_get (p_numbers p (interval_map interval)) of None \<Rightarrow> 0 | Some f \<Rightarrow> f)"

text \<open>A record is accepted by the filter of the loop; it contributes to key \<open>k\<close> when it
  is accepted and \<open>k\<close> is its grouping key.\<close>

definition accepted :: "string \<Rightarrow> protocol \<Rightarrow> bool" where
  "accepted interval p =
     (case dict_get (p_numbers p (interval_map interval)) of
        None \<Rightarrow> False
      | Some f \<Rightarrow> f > 0)"

definition contributes :: "string \<Rightarrow> string option \<Rightarrow> protocol \<Rightarrow> bool" where
  "contributes interval k p =
     (case dict_get (p_numbers p (interval_map interval)) of
        None \<Rightarrow> False
      | Some f \<Rightarrow> f > 0 \<and> group_key p = k)"

definition contributing :: "string \<Rightarrow> string option \<Rightarrow> protocol list \<Rightarrow> protocol list" where
  "contributing interval k ps = filter (contributes interval k) ps"


text \<open>The descriptive attributes (and the recorded maximum) of entry \<open>g\<close> are those of
  record \<open>r\<close>.\<close>

definition tracks :: "string \<Rightarrow> group \<Rightarrow> protocol \<Rightarrow> bool" where
  "tracks interval g r =
     (max_fees g = metric_value interval r
      \<and> name g = best_name r
      \<and> logo g = dict_get_default (p_logo r) ''''
      \<and> category g = dict_get_default (p_category r) ''N/A''
      \<and> change g = dict_get_default (p_numbers r (change_field interval)) 0)"

text \<open>The running maximum over a list of records, started with \<open>b\<close>: a later record
  replaces the current one only when it is strictly larger.\<close>

fun leader :: "('a \<Rightarrow> 'b::linorder) \<Rightarrow> 'a \<Rightarrow> 'a list \<Rightarrow> 'a" where
  "leader m b [] = b"
| "leader m b (x # xs) = leader m (if m x > m b then x else b) xs"

text \<open>The same vocabulary for the prediction-market loop.\<close>

definition pm_metric :: "llama_protocol \<Rightarrow> rat" where
  "pm_metric p = (case bsc_tvl_of p of None \<Rightarrow> 0 | Some x \<Rightarrow> x)"

definition pm_accepted :: "llama_protocol \<Rightarrow> bool" where
  "pm_accepted p =
     (dict_get_default (l_category p) '''' = Some ''Prediction Market''
      \<and> (case bsc_tvl_of p of None \<Rightarrow> False | Some x \<Rightarrow> x > 100))"

definition pm_contributes :: "string option \<Rightarrow> llama_protocol \<Rightarrow> bool" where
  "pm_contributes k p = (pm_accepted p \<and> pm_group_key p = k)"

definition pm_contributing :: "string option \<Rightarrow> llama_protocol list \<Rightarrow> llama_protocol list" where
  "pm_contributing k ps = filter (pm_contributes k) ps"

definition pm_tracks :: "pm_group \<Rightarrow> llama_protocol \<Rightarrow> bool" where
  "pm_tracks g r =
     (max_tvl g = pm_metric r
      \<and> pm_name g = dict_get_default (l_name r) ''Unknown''
      \<and> pm_logo g = dict_get_default (l_logo r) ''''
      \<and> pm_category g = dict_get_default (l_category r) ''''
      \<and> pm_change g = dict_get_default (l_change_1d r) 0)"

text \<open>The keys of a list in the order of their first appearance, given the keys seen
  before.\<close>

fun new_keys :: "'a list \<Rightarrow> 'a list \<Rightarrow> 'a list" where
  "new_keys seen [] = []"
| "new_keys seen (k # ks) =
     (if k \<in> set seen then new_keys seen ks else k # new_keys (seen @ [k]) ks)"

text \<open>The order that a tie-break by display name would give: fees descending, equal fees
  by ascending name.\<close>

definition display_name :: "group \<Rightarrow> string" where
  "display_name g = (case name g of None \<Rightarrow> [] | Some s \<Rightarrow> s)"

definition ranked_by_fees_then_name :: "group list \<Rightarrow> bool" where
  "ranked_by_fees_then_name gs =
     sorted_wrt (\<lambda>a b. fees a > fees b \<or> (fees a = fees b \<and> display_name a \<le> display_name b)) gs"

text \<open>A display name with its letters in lower case and its blanks removed (ASCII), and
  the identity key that would use it when a record has no parent: the record's parent
  identifier when present, else the normalized display name.\<close>

definition lower_char :: "char \<Rightarrow> char" where
  "lower_char c =
     (let n = (of_char c :: nat) in if 65 \<le> n \<and> n \<le> 90 then char_of (n + 32) else c)"

definition normalized_name :: "string \<Rightarrow> string" where
  "normalized_name s = map lower_char (filter (\<lambda>c. c \<noteq> CHR '' '') s)"

definition name_identity_key :: "protocol \<Rightarrow> string option" where
  "name_identity_key p =
     (case dict_get (p_parentProtocol p) of
        Some k \<Rightarrow> Some k
      | None \<Rightarrow> map_option normalized_name (best_name p))"



text \<open>The unit suffix of a formatted number and the factor it stands for.\<close>

fun suffix_of :: "formatted \<Rightarrow> string" where
  "suffix_of (Literal s) = []"
| "suffix_of (Fixed p x d s) = s"

fun shown_number :: "formatted \<Rightarrow> rat" where
  "shown_number (Literal s) = 0"
| "shown_number (Fixed p x d s) = x"

text \<open>The slot of rank \<open>i\<close> (counted from 0) for entry \<open>p\<close>: ranks 0 to 4 go to the left
  column at row \<open>i\<close>, ranks 5 to 9 to the right column at row \<open>i - 5\<close>.\<close>

definition slot_at :: "nat \<Rightarrow> group \<Rightarrow> placement" where
  "slot_at i p =
     \<lparr> is_left = (i < 5),
       row_idx = (if i < 5 then int i else int i - 5),
       logo_left = (if i < 5 then LEFT_LOGO_X else RIGHT_LOGO_X) - RADIUS,
       logo_top = (if i < 5 then Y_POSITIONS_LEFT ! i else Y_POSITIONS_RIGHT ! (i - 5)),
       text_left = (if i < 5 then LEFT_LOGO_X else RIGHT_LOGO_X) + (LOGO_SIZE / 2) + 50,
       img_src = img_src_of p,
       shown_name = name p,
       shown_category = category p,
       fees_formatted = format_fees (Some (of_int (fees p))) \<rparr>"

text \<open>The factor that a unit suffix stands for.\<close>

definition unit_factor :: "string \<Rightarrow> rat" where
  "unit_factor s =
     (if s = ''B'' then 1000000000 else if s = ''M'' then 1000000
      else if s = ''K'' then 1000 else 1)"

section \<open>Example inputs\<close>

definition raw :: "string field \<Rightarrow> string field \<Rightarrow> string field \<Rightarrow> int field \<Rightarrow> protocol" where
  "raw parent slug nm v =
     \<lparr> p_parentProtocol = parent, p_slug = slug, p_displayName = Absent, p_name = nm,
       p_logo = Absent, p_category = Absent,
       p_numbers = (\<lambda>_. Absent)(''total24h'' := v) \<rparr>"

text \<open>Two components of parent A (100 and 50) and one protocol B (80).\<close>

definition example_ab :: "protocol list" where
  "example_ab =
     [raw (Val ''A'') (Val ''a-one'') (Val ''Alpha One'') (Val 100),
      raw (Val ''A'') (Val ''a-two'') (Val ''Alpha Two'') (Val 50),
      raw Absent (Val ''B'') (Val ''Beta'') (Val 80)]"


text \<open>Two protocols with the same fees, the one called Beta listed first.\<close>

definition example_tie :: "protocol list" where
  "example_tie =
     [raw Absent (Val ''beta'') (Val ''Beta'') (Val 5),
      raw Absent (Val ''alpha'') (Val ''Alpha'') (Val 5)]"

text \<open>Two records without a parent whose names differ in case and spacing only.\<close>

definition example_pancake :: "protocol list" where
  "example_pancake =
     [raw Absent (Val ''pancake-swap'') (Val ''Pancake Swap'') (Val 7),
      raw Absent (Val ''pancakeswap'') (Val ''pancakeswap'') (Val 3)]"

text \<open>A record without the metric, one with the metric zero.\<close>

definition example_no_metric :: protocol where
  "example_no_metric = raw Absent (Val ''ghost'') (Val ''Ghost'') Absent"

definition example_zero_metric :: protocol where
  "example_zero_metric = raw Absent (Val ''idle'') (Val ''Idle'') (Val 0)"

definition example_group :: group where
  "example_group =
     \<lparr> name = Some ''Beta'', logo = Some ''https://icons/beta.png'', category = Some ''Dexs'',
       fees = 80, change = Some 0, max_fees = 80, logoBase64 = None \<rparr>"

text \<open>A server that answers 200 for one address, 404 for another, and times out
  otherwise; an encoder that stands for the library's.\<close>

definition example_http :: http where
  "example_http url =
     (if url = ''https://icons/beta.png''
      then Inr \<lparr> status_code = 200, content_type = Some ''image/png'', content = ''PNG'' \<rparr>
      else if url = ''https://icons/gone.png''
      then Inr \<lparr> status_code = 404, content_type = None, content = [] \<rparr>
      else Inl Timeout)"

definition example_b64 :: "string \<Rightarrow> string" where
  "example_b64 bytes = ''UE5H''"

text \<open>Three versions of one prediction market (500, 900 and 900 on Binance) and a
  market with nothing locked.\<close>

definition pm_raw ::
  "string field \<Rightarrow> string field \<Rightarrow> string field \<Rightarrow> rat field \<Rightarrow> llama_protocol" where
  "pm_raw parent slug nm v =
     \<lparr> l_category = Val ''Prediction Market'',
       l_chainTvls = (\<lambda>_. Absent)(''Binance'' := v),
       l_parentProtocol = parent, l_slug = slug, l_name = nm,
       l_logo = Absent, l_change_1d = Absent \<rparr>"

definition example_pm :: "llama_protocol list" where
  "example_pm =
     [pm_raw (Val ''P'') (Val ''p-one'') (Val ''Poly One'') (Val 500),
      pm_raw (Val ''P'') (Val ''p-two'') (Val ''Poly Two'') (Val 900),
      pm_raw (Val ''P'') (Val ''p-three'') (Val ''Poly Three'') (Val 900)]"

definition example_pm_empty :: llama_protocol where
  "example_pm_empty =
     (pm_raw Absent (Val ''tiny'') (Val ''Tiny'') Absent)
       \<lparr> l_chainTvls := (\<lambda>_. Absent)(''BSC'' := Val 0) \<rparr>"

section \<open>Evaluating the examples\<close>

lemmas example_eval =
  fold_step_def interval_map_def group_key_def py_or_def truthy_def Let_def absorb_def
  fresh_group_def best_name_def change_field_def str_replace_def raw_def

lemmas pm_example_eval =
  pm_step_def pm_group_key_def bsc_tvl_of_def num_or_def py_or_def truthy_def Let_def
  pm_absorb_def pm_fresh_group_def pm_raw_def

section \<open>The merge\<close>

lemma map_of_fold_step:
  "map_of (fold_step interval gd p) k =
     (if contributes interval k p
      then Some (absorb interval p (metric_value interval p)
                  (case map_of gd k of None \<Rightarrow> fresh_group p | Some g \<Rightarrow> g))
      else map_of gd k)"
  by (simp add: fold_step_def contributes_def metric_value_def Let_def update_conv'
      split: option.splits)

lemma fees_absorb: "fees (absorb interval p f g) = fees g + f"
  by (simp add: absorb_def Let_def)

lemma fees_loop_append:
  "fees_loop interval gd (xs @ ys) = fees_loop interval (fees_loop interval gd xs) ys"
  by (induction xs arbitrary: gd) simp_all

lemma fold_step_skip:
  "\<not> accepted interval p \<Longrightarrow> fold_step interval gd p = gd"
  by (simp add: fold_step_def accepted_def split: option.splits)

lemma fees_loop_skip:
  "\<not> accepted interval p \<Longrightarrow> fees_loop interval gd (xs @ p # ys) = fees_loop interval gd (xs @ ys)"
  by (simp add: fees_loop_append fold_step_skip)

lemma keys_fold_step:
  "fst ` set (fold_step interval gd p) =
     fst ` set gd \<union> (if accepted interval p then {group_key p} else {})"
  by (simp add: fold_step_def accepted_def Let_def dom_update split: option.splits)

lemma distinct_fold_step:
  "distinct (map fst gd) \<Longrightarrow> distinct (map fst (fold_step interval gd p))"
  by (simp add: fold_step_def Let_def distinct_update split: option.splits)

lemma keys_fees_loop:
  "fst ` set (fees_loop interval gd ps) =
     fst ` set gd \<union> group_key ` set (filter (accepted interval) ps)"
proof (induction ps arbitrary: gd)
  case Nil
  show ?case by simp
next
  case (Cons p ps)
  have "fst ` set (fees_loop interval gd (p # ps)) =
      fst ` set (fold_step interval gd p) \<union> group_key ` set (filter (accepted interval) ps)"
    using Cons.IH [of "fold_step interval gd p"] by simp
  also have "\<dots> = fst ` set gd \<union> group_key ` set (filter (accepted interval) (p # ps))"
    unfolding keys_fold_step by (cases "accepted interval p") auto
  finally show ?case .
qed

lemma distinct_fees_loop:
  "distinct (map fst gd) \<Longrightarrow> distinct (map fst (fees_loop interval gd ps))"
  by (induction ps arbitrary: gd) (simp_all add: distinct_fold_step)

lemma keys_fold_step_order:
  "map fst (fold_step interval gd p) =
     map fst gd @ new_keys (map fst gd) (map group_key (filter (accepted interval) [p]))"
  by (simp add: fold_step_def accepted_def Let_def update_keys split: option.splits)

lemma keys_fees_loop_order:
  "map fst (fees_loop interval gd ps) =
     map fst gd @ new_keys (map fst gd) (map group_key (filter (accepted interval) ps))"
proof (induction ps arbitrary: gd)
  case Nil
  show ?case by simp
next
  case (Cons p ps)
  show ?case
  proof (cases "accepted interval p")
    case False
    then show ?thesis
      using Cons.IH [of gd] by (simp add: fold_step_skip)
  next
    case True
    show ?thesis
    proof (cases "group_key p \<in> set (map fst gd)")
      case True
      with \<open>accepted interval p\<close> have "map fst (fold_step interval gd p) = map fst gd"
        by (simp add: keys_fold_step_order)
      then show ?thesis
        using Cons.IH [of "fold_step interval gd p"] True \<open>accepted interval p\<close> by simp
    next
      case False
      with \<open>accepted interval p\<close>
      have "map fst (fold_step interval gd p) = map fst gd @ [group_key p]"
        by (simp add: keys_fold_step_order)
      then show ?thesis
        using Cons.IH [of "fold_step interval gd p"] False \<open>accepted interval p\<close> by simp
    qed
  qed
qed






section \<open>Metadata follows the largest component\<close>

lemma leader_snoc:
  "leader m b (xs @ [x]) = (if m x > m (leader m b xs) then x else leader m b xs)"
  by (induction xs arbitrary: b) simp_all

lemma leader_split:
  "\<exists>pre post. b # xs = pre @ leader m b xs # post
     \<and> (\<forall>x\<in>set pre. m x < m (leader m b xs))
     \<and> (\<forall>x\<in>set post. m x \<le> m (leader m b xs))"
proof (induction xs rule: rev_induct)
  case Nil
  have "[b] = [] @ b # []" by simp
  then show ?case by fastforce
next
  case (snoc x xs)
  then obtain pre post where s: "b # xs = pre @ leader m b xs # post"
    and lo: "\<forall>y\<in>set pre. m y < m (leader m b xs)"
    and hi: "\<forall>y\<in>set post. m y \<le> m (leader m b xs)"
    by blast
  show ?case
  proof (cases "m x > m (leader m b xs)")
    case True
    have "b # xs @ [x] = (b # xs) @ x # []" by simp
    moreover have "\<forall>y\<in>set (b # xs). m y < m x"
    proof
      fix y assume "y \<in> set (b # xs)"
      then have "y \<in> set pre \<or> y = leader m b xs \<or> y \<in> set post"
        using s by (metis Un_iff set_ConsD set_append)
      then show "m y < m x" using lo hi True by force
    qed
    ultimately show ?thesis
      using True by (metis leader_snoc empty_iff list.set(1))
  next
    case False
    have "b # xs @ [x] = pre @ leader m b xs # (post @ [x])"
      using s by simp
    moreover have "\<forall>y\<in>set (post @ [x]). m y \<le> m (leader m b xs)"
      using hi False by auto
    ultimately show ?thesis
      using False lo by (metis leader_snoc)
  qed
qed

lemma tracks_absorb:
  assumes "tracks interval g b"
  shows "tracks interval (absorb interval p (metric_value interval p) g)
           (if metric_value interval p > metric_value interval b then p else b)"
  using assms by (simp add: tracks_def absorb_def Let_def)

lemma tracks_fresh:
  assumes "metric_value interval p > 0"
  shows "tracks interval (absorb interval p (metric_value interval p) (fresh_group p)) p"
  using assms by (simp add: tracks_def absorb_def Let_def fresh_group_def)

lemma contributes_positive: "contributes interval k p \<Longrightarrow> metric_value interval p > 0"
  by (simp add: contributes_def metric_value_def split: option.splits)

lemma loop_tracks:
  assumes "map_of gd k = Some g0" and "tracks interval g0 b"
  shows "\<exists>g. map_of (fees_loop interval gd ps) k = Some g
           \<and> tracks interval g (leader (metric_value interval) b (contributing interval k ps))"
  using assms
proof (induction ps arbitrary: gd g0 b)
  case Nil
  then show ?case by (simp add: contributing_def)
next
  case (Cons p ps)
  show ?case
  proof (cases "contributes interval k p")
    case True
    let ?g1 = "absorb interval p (metric_value interval p) g0"
    let ?b1 = "if metric_value interval p > metric_value interval b then p else b"
    have m: "map_of (fold_step interval gd p) k = Some ?g1"
      using True Cons.prems(1) by (simp add: map_of_fold_step)
    have t: "tracks interval ?g1 ?b1"
      using Cons.prems(2) by (rule tracks_absorb)
    show ?thesis
      using Cons.IH [OF m t] True by (simp add: contributing_def)
  next
    case False
    have m: "map_of (fold_step interval gd p) k = Some g0"
      using False Cons.prems(1) by (simp add: map_of_fold_step)
    show ?thesis
      using Cons.IH [OF m Cons.prems(2)] False by (simp add: contributing_def)
  qed
qed

lemma loop_first:
  assumes "map_of gd k = None" and "contributing interval k ps = c # cs"
  shows "\<exists>g. map_of (fees_loop interval gd ps) k = Some g
           \<and> tracks interval g (leader (metric_value interval) c cs)"
  using assms
proof (induction ps arbitrary: gd)
  case Nil
  then show ?case by (simp add: contributing_def)
next
  case (Cons p ps)
  show ?case
  proof (cases "contributes interval k p")
    case True
    then have c: "c = p" and cs: "cs = contributing interval k ps"
      using Cons.prems(2) by (simp_all add: contributing_def)
    let ?g1 = "absorb interval p (metric_value interval p) (fresh_group p)"
    have m: "map_of (fold_step interval gd p) k = Some ?g1"
      using True Cons.prems(1) by (simp add: map_of_fold_step)
    have t: "tracks interval ?g1 p"
      using True by (intro tracks_fresh contributes_positive)
    show ?thesis
      using loop_tracks [OF m t, of ps] c cs by simp
  next
    case False
    have m: "map_of (fold_step interval gd p) k = None"
      using False Cons.prems(1) by (simp add: map_of_fold_step)
    have r: "contributing interval k ps = c # cs"
      using False Cons.prems(2) by (simp add: contributing_def)
    show ?thesis
      using Cons.IH [OF m r] by simp
  qed
qed

lemma fees_metadata:
  assumes "contributing interval k ps \<noteq> []"
  shows "\<exists>g before r after.
      map_of (fees_loop interval [] ps) k = Some g
    \<and> contributing interval k ps = before @ r # after
    \<and> (\<forall>x\<in>set before. metric_value interval x < metric_value interval r)
    \<and> (\<forall>x\<in>set after. metric_value interval x \<le> metric_value interval r)
    \<and> tracks interval g r"
proof -
  obtain c cs where cs: "contributing interval k ps = c # cs"
    using assms by (cases "contributing interval k ps") auto
  let ?m = "metric_value interval"
  obtain g where g: "map_of (fees_loop interval [] ps) k = Some g"
    and t: "tracks interval g (leader ?m c cs)"
    using loop_first [of "[]" k interval ps c cs] cs by auto
  obtain pre post where s: "c # cs = pre @ leader ?m c cs # post"
    and lo: "\<forall>x\<in>set pre. ?m x < ?m (leader ?m c cs)"
    and hi: "\<forall>x\<in>set post. ?m x \<le> ?m (leader ?m c cs)"
    using leader_split [of c cs ?m] by blast
  show ?thesis
    using g t s lo hi cs by metis
qed

text \<open>The same for the loop of \<open>fetch_prediction_market_data\<close>.\<close>

lemma map_of_pm_step:
  "map_of (pm_step gd p) k =
     (if pm_contributes k p
      then Some (pm_absorb p (pm_metric p)
                  (case map_of gd k of None \<Rightarrow> pm_fresh_group p | Some g \<Rightarrow> g))
      else map_of gd k)"
  by (auto simp: pm_step_def pm_contributes_def pm_accepted_def pm_metric_def Let_def update_conv'
      split: option.splits)

lemma pm_step_skip: "\<not> pm_accepted p \<Longrightarrow> pm_step gd p = gd"
  by (auto simp: pm_step_def pm_accepted_def split: option.splits)

lemma pm_loop_append: "pm_loop gd (xs @ ys) = pm_loop (pm_loop gd xs) ys"
  by (induction xs arbitrary: gd) simp_all

lemma pm_loop_skip: "\<not> pm_accepted p \<Longrightarrow> pm_loop gd (xs @ p # ys) = pm_loop gd (xs @ ys)"
  by (simp add: pm_loop_append pm_step_skip)

lemma pm_accepted_metric: "pm_accepted p \<Longrightarrow> pm_metric p > 100"
  by (simp add: pm_accepted_def pm_metric_def split: option.splits)

lemma pm_tracks_absorb:
  assumes "pm_tracks g b"
  shows "pm_tracks (pm_absorb p (pm_metric p) g) (if pm_metric p > pm_metric b then p else b)"
  using assms by (simp add: pm_tracks_def pm_absorb_def Let_def)

lemma pm_tracks_fresh:
  assumes "pm_metric p > 100"
  shows "pm_tracks (pm_absorb p (pm_metric p) (pm_fresh_group p)) p"
  using assms by (simp add: pm_tracks_def pm_absorb_def Let_def pm_fresh_group_def)

lemma pm_loop_tracks:
  assumes "map_of gd k = Some g0" and "pm_tracks g0 b"
  shows "\<exists>g. map_of (pm_loop gd ps) k = Some g
           \<and> pm_tracks g (leader pm_metric b (pm_contributing k ps))"
  using assms
proof (induction ps arbitrary: gd g0 b)
  case Nil
  then show ?case by (simp add: pm_contributing_def)
next
  case (Cons p ps)
  show ?case
  proof (cases "pm_contributes k p")
    case True
    let ?g1 = "pm_absorb p (pm_metric p) g0"
    let ?b1 = "if pm_metric p > pm_metric b then p else b"
    have m: "map_of (pm_step gd p) k = Some ?g1"
      using True Cons.prems(1) by (simp add: map_of_pm_step)
    have t: "pm_tracks ?g1 ?b1"
      using Cons.prems(2) by (rule pm_tracks_absorb)
    show ?thesis
      using Cons.IH [OF m t] True by (simp add: pm_contributing_def)
  next
    case False
    have m: "map_of (pm_step gd p) k = Some g0"
      using False Cons.prems(1) by (auto simp: map_of_pm_step)
    show ?thesis
      using Cons.IH [OF m Cons.prems(2)] False by (simp add: pm_contributing_def)
  qed
qed

lemma pm_loop_first:
  assumes "map_of gd k = None" and "pm_contributing k ps = c # cs"
  shows "\<exists>g. map_of (pm_loop gd ps) k = Some g \<and> pm_tracks g (leader pm_metric c cs)"
  using assms
proof (induction ps arbitrary: gd)
  case Nil
  then show ?case by (simp add: pm_contributing_def)
next
  case (Cons p ps)
  show ?case
  proof (cases "pm_contributes k p")
    case True
    then have c: "c = p" and cs: "cs = pm_contributing k ps"
      using Cons.prems(2) by (simp_all add: pm_contributing_def)
    let ?g1 = "pm_absorb p (pm_metric p) (pm_fresh_group p)"
    have m: "map_of (pm_step gd p) k = Some ?g1"
      using True Cons.prems(1) by (simp add: map_of_pm_step)
    have t: "pm_tracks ?g1 p"
      using True by (intro pm_tracks_fresh pm_accepted_metric) (simp add: pm_contributes_def)
    show ?thesis
      using pm_loop_tracks [OF m t, of ps] c cs by simp
  next
    case False
    have m: "map_of (pm_step gd p) k = None"
      using False Cons.prems(1) by (auto simp: map_of_pm_step)
    have r: "pm_contributing k ps = c # cs"
      using False Cons.prems(2) by (simp add: pm_contributing_def)
    show ?thesis
      using Cons.IH [OF m r] by simp
  qed
qed

lemma pm_metadata:
  assumes "pm_contributing k ps \<noteq> []"
  shows "\<exists>g before r after.
      map_of (pm_loop [] ps) k = Some g
    \<and> pm_contributing k ps = before @ r # after
    \<and> (\<forall>x\<in>set before. pm_metric x < pm_metric r)
    \<and> (\<forall>x\<in>set after. pm_metric x \<le> pm_metric r)
    \<and> pm_tracks g r"
proof -
  obtain c cs where cs: "pm_contributing k ps = c # cs"
    using assms by (cases "pm_contributing k ps") auto
  obtain g where g: "map_of (pm_loop [] ps) k = Some g"
    and t: "pm_tracks g (leader pm_metric c cs)"
    using pm_loop_first [of "[]" k ps c cs] cs by auto
  obtain pre post where s: "c # cs = pre @ leader pm_metric c cs # post"
    and lo: "\<forall>x\<in>set pre. pm_metric x < pm_metric (leader pm_metric c cs)"
    and hi: "\<forall>x\<in>set post. pm_metric x \<le> pm_metric (leader pm_metric c cs)"
    using leader_split [of c cs pm_metric] by blast
  show ?thesis
    using g t s lo hi cs by metis
qed

text \<open>
  C2. When at least one record contributes to a key, the merged entry of the key carries
  the name, logo, category (and change and recorded maximum) of one contributing record
  \<open>r\<close>: every contributing record before \<open>r\<close> has a strictly smaller metric and every
  one after it has a metric at most that of \<open>r\<close>. So \<open>r\<close> is the first record with the
  largest metric, not the last record folded in. This holds for the fees loop (metric:
  the fees of the interval) and for the prediction-market loop (metric: the value locked
  on the chain).
\<close>

theorem metadata_from_first_largest:
  "(contributing interval k ps \<noteq> [] \<longrightarrow>
      (\<exists>g before r after.
          map_of (fees_loop interval [] ps) k = Some g
        \<and> contributing interval k ps = before @ r # after
        \<and> (\<forall>x\<in>set before. metric_value interval x < metric_value interval r)
        \<and> (\<forall>x\<in>set after. metric_value interval x \<le> metric_value interval r)
        \<and> tracks interval g r))
   \<and> (pm_contributing k' qs \<noteq> [] \<longrightarrow>
      (\<exists>g before r after.
          map_of (pm_loop [] qs) k' = Some g
        \<and> pm_contributing k' qs = before @ r # after
        \<and> (\<forall>x\<in>set before. pm_metric x < pm_metric r)
        \<and> (\<forall>x\<in>set after. pm_metric x \<le> pm_metric r)
        \<and> pm_tracks g r))"
  using fees_metadata [of interval k ps] pm_metadata [of k' qs] by blast

theorem metadata_example_witness:
  "contributing ''24h'' (Some ''A'') example_ab \<noteq> []
   \<and> pm_contributing (Some ''P'') example_pm \<noteq> []
   \<and> (\<exists>g before r after.
        map_of (fees_loop ''24h'' [] example_ab) (Some ''A'') = Some g
      \<and> contributing ''24h'' (Some ''A'') example_ab = before @ r # after
      \<and> (\<forall>x\<in>set before. metric_value ''24h'' x < metric_value ''24h'' r)
      \<and> (\<forall>x\<in>set after. metric_value ''24h'' x \<le> metric_value ''24h'' r)
      \<and> tracks ''24h'' g r)
   \<and> (\<exists>g before r after.
        map_of (pm_loop [] example_pm) (Some ''P'') = Some g
      \<and> pm_contributing (Some ''P'') example_pm = before @ r # after
      \<and> (\<forall>x\<in>set before. pm_metric x < pm_metric r)
      \<and> (\<forall>x\<in>set after. pm_metric x \<le> pm_metric r)
      \<and> pm_tracks g r)
   \<and> map_option name (map_of (fees_loop ''24h'' [] example_ab) (Some ''A''))
       = Some (Some ''Alpha One'')
   \<and> map_option pm_name (map_of (pm_loop [] example_pm) (Some ''P''))
       = Some (Some ''Poly Two'')"
proof -
  have h: "contributing ''24h'' (Some ''A'') example_ab \<noteq> []"
    by (simp add: contributing_def contributes_def example_ab_def example_eval)
  have h': "pm_contributing (Some ''P'') example_pm \<noteq> []"
    by (simp add: pm_contributing_def pm_contributes_def pm_accepted_def example_pm_def
        pm_example_eval)
  have n: "map_option name (map_of (fees_loop ''24h'' [] example_ab) (Some ''A''))
       = Some (Some ''Alpha One'')"
    by (simp add: example_ab_def example_eval)
  have n': "map_option pm_name (map_of (pm_loop [] example_pm) (Some ''P''))
       = Some (Some ''Poly Two'')"
    by (simp add: example_pm_def pm_example_eval)
  show ?thesis
    using metadata_from_first_largest
      [of "''24h''" "Some ''A''" example_ab "Some ''P''" example_pm] h h' n n'
    by blast
qed

section \<open>The ranking\<close>

lemma sorted_desc_sort: "sorted_wrt (\<lambda>a b. fees a \<ge> fees b) (sort_by_fees_desc xs)"
proof -
  have "sorted (map (\<lambda>g. - fees g) (sort_by_fees_desc xs))"
    unfolding sort_by_fees_desc_def by (rule sorted_sort_key)
  then show ?thesis
    by (simp add: sorted_map)
qed

lemma sorted_desc_take:
  "sorted_wrt (\<lambda>a b. fees a \<ge> fees b) xs \<Longrightarrow> sorted_wrt (\<lambda>a b. fees a \<ge> fees b) (take n xs)"
  by (rule sorted_wrt_take)

lemma resort_sorted: 
  assumes "sorted_wrt (\<lambda>a b. fees a \<ge> fees b) xs"
  shows "sort_by_fees_desc xs = xs"
proof -
  have "sorted (map (\<lambda>g. - fees g) xs)"
    using assms by (simp add: sorted_map)
  then show ?thesis
    unfolding sort_by_fees_desc_def by (rule sort_key_id_if_sorted)
qed

lemma filter_take_prefix: "prefix (filter P (take n xs)) (filter P xs)"
proof -
  have "filter P xs = filter P (take n xs) @ filter P (drop n xs)"
    by (metis append_take_drop_id filter_append)
  then show ?thesis
    by (simp add: prefix_def)
qed

lemma sort_by_fees_stable:
  "filter (\<lambda>g. fees g = v) (sort_by_fees_desc xs) = filter (\<lambda>g. fees g = v) xs"
proof -
  have "filter (\<lambda>g. - fees g = - v) (sort_key (\<lambda>g. - fees g) xs) = filter (\<lambda>g. - fees g = - v) xs"
    by (rule sort_key_stable)
  then show ?thesis
    by (simp add: sort_by_fees_desc_def)
qed

lemma fees_ranking:
  "length (fetch_fees_data response interval) \<le> 10
   \<and> sorted_wrt (\<lambda>a b. fees a \<ge> fees b) (fetch_fees_data response interval)
   \<and> take 10 (sort_by_fees_desc (fetch_fees_data response interval))
       = fetch_fees_data response interval
   \<and> prefix (filter (\<lambda>g. fees g = v) (fetch_fees_data (Inr ps) interval))
        (filter (\<lambda>g. fees g = v) (map snd (fees_loop interval [] ps)))"
proof -
  let ?out = "fetch_fees_data response interval"
  have len: "length ?out \<le> 10"
    by (cases response) (simp_all add: fetch_fees_data_def)
  have srt: "sorted_wrt (\<lambda>a b. fees a \<ge> fees b) ?out"
    by (cases response) (simp_all add: fetch_fees_data_def sorted_desc_sort sorted_desc_take)
  have idem: "take 10 (sort_by_fees_desc ?out) = ?out"
    using len by (simp add: resort_sorted [OF srt])
  have "prefix (filter (\<lambda>g. fees g = v) (take 10 (sort_by_fees_desc (map snd (fees_loop interval [] ps)))))
          (filter (\<lambda>g. fees g = v) (sort_by_fees_desc (map snd (fees_loop interval [] ps))))"
    by (rule filter_take_prefix)
  then have stab: "prefix (filter (\<lambda>g. fees g = v) (fetch_fees_data (Inr ps) interval))
        (filter (\<lambda>g. fees g = v) (map snd (fees_loop interval [] ps)))"
    by (simp add: fetch_fees_data_def sort_by_fees_stable)
  show ?thesis using len srt idem stab by blast
qed

lemma pm_sorted: "sorted_wrt (\<lambda>a b. tvl a \<ge> tvl b) (fetch_prediction_market_data response)"
proof (cases response)
  case (Inl e)
  then show ?thesis by (simp add: fetch_prediction_market_data_def)
next
  case (Inr qs)
  have "sorted (map (\<lambda>g. - tvl g) (sort_by_tvl_desc (map snd (pm_loop [] qs))))"
    unfolding sort_by_tvl_desc_def by (rule sorted_sort_key)
  then show ?thesis
    using Inr by (simp add: fetch_prediction_market_data_def sorted_map)
qed

lemma pm_stable:
  "filter (\<lambda>g. tvl g = v) (fetch_prediction_market_data (Inr ps))
     = filter (\<lambda>g. tvl g = v) (map snd (pm_loop [] ps))"
proof -
  have "filter (\<lambda>g. - tvl g = - v) (sort_key (\<lambda>g. - tvl g) (map snd (pm_loop [] ps)))
      = filter (\<lambda>g. - tvl g = - v) (map snd (pm_loop [] ps))"
    by (rule sort_key_stable)
  then show ?thesis
    by (simp add: fetch_prediction_market_data_def sort_by_tvl_desc_def)
qed

lemma pm_resort:
  "sort_by_tvl_desc (fetch_prediction_market_data response) = fetch_prediction_market_data response"
proof -
  have "sorted (map (\<lambda>g. - tvl g) (fetch_prediction_market_data response))"
    using pm_sorted [of response] by (simp add: sorted_map)
  then show ?thesis
    unfolding sort_by_tvl_desc_def by (rule sort_key_id_if_sorted)
qed

text \<open>
  C3 (as amended). The list that \<open>fetch_fees_data\<close> returns has at most 10 entries and
  is sorted by fees, largest first; sorting it again by fees and cutting at 10 gives the
  same list. Entries with equal fees are not ordered by name: among the entries with any
  given fees value the output keeps the order of the merged dictionary, that is, the order
  in which their keys were first met in the input. The list that
  \<open>fetch_prediction_market_data\<close> returns is sorted by the value locked, largest first,
  with the same order among equals, and sorting it again changes nothing.
\<close>

theorem ranking_sorted_by_fees_ties_in_first_seen_order:
  "length (fetch_fees_data response interval) \<le> 10
   \<and> sorted_wrt (\<lambda>a b. fees a \<ge> fees b) (fetch_fees_data response interval)
   \<and> take 10 (sort_by_fees_desc (fetch_fees_data response interval))
       = fetch_fees_data response interval
   \<and> prefix (filter (\<lambda>g. fees g = v) (fetch_fees_data (Inr ps) interval))
        (filter (\<lambda>g. fees g = v) (map snd (fees_loop interval [] ps)))
   \<and> map fst (fees_loop interval [] ps)
       = new_keys [] (map group_key (filter (accepted interval) ps))
   \<and> sorted_wrt (\<lambda>a b. tvl a \<ge> tvl b) (fetch_prediction_market_data response')
   \<and> sort_by_tvl_desc (fetch_prediction_market_data response')
       = fetch_prediction_market_data response'
   \<and> filter (\<lambda>g. tvl g = w) (fetch_prediction_market_data (Inr qs))
       = filter (\<lambda>g. tvl g = w) (map snd (pm_loop [] qs))"
proof -
  have "map fst (fees_loop interval [] ps)
       = new_keys [] (map group_key (filter (accepted interval) ps))"
    using keys_fees_loop_order [of interval "[]" ps] by simp
  then show ?thesis
    using fees_ranking [of response interval v ps] pm_sorted [of response']
      pm_resort [of response'] pm_stable [of w qs]
    by blast
qed

text \<open>
  The claim as first stated (equal fees ordered by ascending display name) fails: two
  protocols with fees 5, Beta listed before Alpha, come out as Beta, Alpha.
\<close>

lemma tie_output:
  "map name (fetch_fees_data (Inr example_tie) ''24h'') = [Some ''Beta'', Some ''Alpha'']
   \<and> map fees (fetch_fees_data (Inr example_tie) ''24h'') = [5, 5]"
  by (simp add: fetch_fees_data_def sort_by_fees_desc_def example_tie_def example_eval)

theorem name_tiebreak_counterexample:
  "\<not> ranked_by_fees_then_name (fetch_fees_data (Inr example_tie) ''24h'')"
proof -
  obtain a b where ab: "fetch_fees_data (Inr example_tie) ''24h'' = [a, b]"
    and "name a = Some ''Beta''" "name b = Some ''Alpha''" "fees a = 5" "fees b = 5"
    using tie_output by (auto simp: map_eq_Cons_conv)
  then show ?thesis
    by (simp add: ranked_by_fees_then_name_def display_name_def)
qed

section \<open>The grouping key\<close>

text \<open>
  C4 (as amended). The grouping key of a record is its \<open>parentProtocol\<close> when that is
  present and not empty, and its \<open>slug\<close> otherwise; the display name takes no part. The
  merged dictionary has exactly one entry for each key of an accepted record, the keys in
  the order of their first appearance.
\<close>

theorem grouping_key_is_parent_or_slug:
  "group_key p =
     (case dict_get (p_parentProtocol p) of
        None \<Rightarrow> dict_get (p_slug p)
      | Some s \<Rightarrow> if s = [] then dict_get (p_slug p) else Some s)
   \<and> distinct (map fst (fees_loop interval [] ps))
   \<and> set (map fst (fees_loop interval [] ps)) = group_key ` set (filter (accepted interval) ps)
   \<and> map fst (fees_loop interval [] ps)
       = new_keys [] (map group_key (filter (accepted interval) ps))"
proof -
  have "group_key p =
     (case dict_get (p_parentProtocol p) of
        None \<Rightarrow> dict_get (p_slug p)
      | Some s \<Rightarrow> if s = [] then dict_get (p_slug p) else Some s)"
    by (simp add: group_key_def py_or_def truthy_def split: option.splits)
  moreover have "distinct (map fst (fees_loop interval [] ps))"
    by (rule distinct_fees_loop) simp
  moreover have "set (map fst (fees_loop interval [] ps))
      = group_key ` set (filter (accepted interval) ps)"
    using keys_fees_loop [of interval "[]" ps] by simp
  moreover have "map fst (fees_loop interval [] ps)
       = new_keys [] (map group_key (filter (accepted interval) ps))"
    using keys_fees_loop_order [of interval "[]" ps] by simp
  ultimately show ?thesis by blast
qed

text \<open>
  The claim as first stated fails: two records without a parent, named Pancake Swap and
  pancakeswap, have the same normalized name but different slugs, and stay two entries.
\<close>

theorem pancake_counterexample:
  "map name_identity_key example_pancake = [Some ''pancakeswap'', Some ''pancakeswap'']
   \<and> map group_key example_pancake = [Some ''pancake-swap'', Some ''pancakeswap'']
   \<and> map fst (fees_loop ''24h'' [] example_pancake) = [Some ''pancake-swap'', Some ''pancakeswap'']
   \<and> map (name \<circ> snd) (fees_loop ''24h'' [] example_pancake) = [Some ''Pancake Swap'', Some ''pancakeswap'']"
proof -
  have n1: "normalized_name ''Pancake Swap'' = ''pancakeswap''" by code_simp
  have n2: "normalized_name ''pancakeswap'' = ''pancakeswap''" by code_simp
  have a: "map name_identity_key example_pancake = [Some ''pancakeswap'', Some ''pancakeswap'']"
    by (simp add: example_pancake_def name_identity_key_def raw_def best_name_def py_or_def truthy_def n1 n2)
  have b: "map group_key example_pancake = [Some ''pancake-swap'', Some ''pancakeswap'']"
    by (simp add: example_pancake_def example_eval)
  have c: "map fst (fees_loop ''24h'' [] example_pancake) = [Some ''pancake-swap'', Some ''pancakeswap'']"
    by (simp add: example_pancake_def example_eval)
  have d: "map (name \<circ> snd) (fees_loop ''24h'' [] example_pancake) = [Some ''Pancake Swap'', Some ''pancakeswap'']"
    by (simp add: example_pancake_def example_eval)
  show ?thesis using a b c d by blast
qed

section \<open>Records that the filter skips\<close>

text \<open>
  C5. A record whose value of the ranking metric is missing or \<open>null\<close> leaves no trace:
  the merged dictionary and the ranked list are those of the input without the record,
  wherever the record stands in the input.
\<close>

theorem absent_metric_record_is_ignored:
  assumes "dict_get (p_numbers p (interval_map interval)) = None"
  shows "fees_loop interval gd (xs @ p # ys) = fees_loop interval gd (xs @ ys)
       \<and> fetch_fees_data (Inr (xs @ p # ys)) interval = fetch_fees_data (Inr (xs @ ys)) interval"
proof -
  have "\<not> accepted interval p"
    using assms by (simp add: accepted_def)
  then show ?thesis
    by (simp add: fetch_fees_data_def fees_loop_skip)
qed

theorem absent_metric_example_witness:
  "dict_get (p_numbers example_no_metric (interval_map ''24h'')) = None
   \<and> fetch_fees_data (Inr (example_no_metric # example_ab)) ''24h'' = fetch_fees_data (Inr example_ab) ''24h''
   \<and> map_of (fees_loop ''24h'' [] (example_ab @ [example_no_metric])) (Some ''ghost'') = None"
proof -
  have h: "dict_get (p_numbers example_no_metric (interval_map ''24h'')) = None"
    by (simp add: example_no_metric_def raw_def interval_map_def)
  have "map_of (fees_loop ''24h'' [] example_ab) (Some ''ghost'') = None"
    by (simp add: example_ab_def example_eval)
  then show ?thesis
    using absent_metric_record_is_ignored [OF h, of "[]" "[]" example_ab]
      absent_metric_record_is_ignored [OF h, of "[]" example_ab "[]"] h
    by simp
qed

lemma set_update_subset: "set (AList.update k v al) \<subseteq> insert (k, v) (set al)"
  by (induction al) auto

lemma positive_fold_step:
  assumes "\<forall>g\<in>set (map snd gd). fees g > 0"
  shows "\<forall>g\<in>set (map snd (fold_step interval gd p)). fees g > 0"
proof (cases "accepted interval p")
  case False
  then show ?thesis using assms by (simp add: fold_step_skip)
next
  case True
  then obtain f where f: "dict_get (p_numbers p (interval_map interval)) = Some f" "f > 0"
    by (auto simp: accepted_def split: option.splits)
  let ?g = "case map_of gd (group_key p) of None \<Rightarrow> fresh_group p | Some g \<Rightarrow> g"
  have g0: "fees ?g \<ge> 0"
  proof (cases "map_of gd (group_key p)")
    case None
    then show ?thesis by (simp add: fresh_group_def)
  next
    case (Some g)
    then have "g \<in> set (map snd gd)"
      by (metis map_of_SomeD set_zip_rightD zip_map_fst_snd)
    then show ?thesis using assms Some by force
  qed
  have st: "fold_step interval gd p = AList.update (group_key p) (absorb interval p f ?g) gd"
    using f by (simp add: fold_step_def Let_def)
  have "fees (absorb interval p f ?g) > 0"
    using g0 f by (simp add: fees_absorb)
  then show ?thesis
    using assms set_update_subset [of "group_key p" "absorb interval p f ?g" gd]
    unfolding st by fastforce
qed

lemma positive_fees_loop:
  "\<forall>g\<in>set (map snd gd). fees g > 0 \<Longrightarrow> \<forall>g\<in>set (map snd (fees_loop interval gd ps)). fees g > 0"
proof (induction ps arbitrary: gd)
  case Nil
  then show ?case by simp
next
  case (Cons p ps)
  show ?case
    using Cons.IH [OF positive_fold_step [OF Cons.prems]] by simp
qed

lemma fees_positive:
  "(\<forall>g\<in>set (map snd (fees_loop interval [] ps)). fees g > 0)
   \<and> (\<forall>g\<in>set (fetch_fees_data response interval). fees g > 0)
   \<and> (dict_get (p_numbers p (interval_map interval)) = Some f \<and> f \<le> 0 \<longrightarrow>
        fees_loop interval gd (xs @ p # ys) = fees_loop interval gd (xs @ ys)
      \<and> fetch_fees_data (Inr (xs @ p # ys)) interval = fetch_fees_data (Inr (xs @ ys)) interval)"
proof -
  have a: "\<And>qs. \<forall>g\<in>set (map snd (fees_loop interval [] qs)). fees g > 0"
    by (rule positive_fees_loop) simp
  have b: "\<forall>g\<in>set (fetch_fees_data response interval). fees g > 0"
  proof (cases response)
    case (Inl e)
    then show ?thesis by (simp add: fetch_fees_data_def)
  next
    case (Inr qs)
    have "set (fetch_fees_data response interval) \<subseteq> set (map snd (fees_loop interval [] qs))"
      using Inr set_take_subset [of 10 "sort_by_fees_desc (map snd (fees_loop interval [] qs))"]
      by (simp add: fetch_fees_data_def sort_by_fees_desc_def)
    then show ?thesis using a [of qs] by blast
  qed
  have c: "fees_loop interval gd (xs @ p # ys) = fees_loop interval gd (xs @ ys)
      \<and> fetch_fees_data (Inr (xs @ p # ys)) interval = fetch_fees_data (Inr (xs @ ys)) interval"
    if "dict_get (p_numbers p (interval_map interval)) = Some f" "f \<le> 0"
  proof -
    have "\<not> accepted interval p"
      using that by (simp add: accepted_def)
    then show ?thesis
      by (simp add: fetch_fees_data_def fees_loop_skip)
  qed
  show ?thesis using a b c by blast
qed

lemma tvl_absorb: "tvl (pm_absorb p x g) = tvl g + x"
  by (simp add: pm_absorb_def Let_def)

lemma positive_pm_step:
  assumes "\<forall>g\<in>set (map snd gd). tvl g > 100"
  shows "\<forall>g\<in>set (map snd (pm_step gd p)). tvl g > 100"
proof (cases "pm_accepted p")
  case False
  then show ?thesis using assms by (simp add: pm_step_skip)
next
  case True
  then obtain x where x: "bsc_tvl_of p = Some x" "x > 100"
    and c: "dict_get_default (l_category p) '''' = Some ''Prediction Market''"
    by (auto simp: pm_accepted_def split: option.splits)
  let ?g = "case map_of gd (pm_group_key p) of None \<Rightarrow> pm_fresh_group p | Some g \<Rightarrow> g"
  have g0: "tvl ?g \<ge> 0"
  proof (cases "map_of gd (pm_group_key p)")
    case None
    then show ?thesis by (simp add: pm_fresh_group_def)
  next
    case (Some g)
    then have "g \<in> set (map snd gd)"
      by (metis map_of_SomeD set_zip_rightD zip_map_fst_snd)
    then show ?thesis using assms Some by force
  qed
  have st: "pm_step gd p = AList.update (pm_group_key p) (pm_absorb p x ?g) gd"
    using x c by (simp add: pm_step_def Let_def)
  have "tvl (pm_absorb p x ?g) > 100"
    using g0 x by (simp add: tvl_absorb)
  then show ?thesis
    using assms set_update_subset [of "pm_group_key p" "pm_absorb p x ?g" gd]
    unfolding st by fastforce
qed

lemma positive_pm_loop:
  "\<forall>g\<in>set (map snd gd). tvl g > 100 \<Longrightarrow> \<forall>g\<in>set (map snd (pm_loop gd ps)). tvl g > 100"
proof (induction ps arbitrary: gd)
  case Nil
  then show ?case by simp
next
  case (Cons p ps)
  show ?case
    using Cons.IH [OF positive_pm_step [OF Cons.prems]] by simp
qed

lemma positive_pm_output: "\<forall>g\<in>set (fetch_prediction_market_data response). tvl g > 0"
proof (cases response)
  case (Inl e)
  then show ?thesis by (simp add: fetch_prediction_market_data_def)
next
  case (Inr qs)
  have "\<forall>g\<in>set (map snd (pm_loop [] qs)). tvl g > 100"
    by (rule positive_pm_loop) simp
  then show ?thesis
    using Inr by (fastforce simp: fetch_prediction_market_data_def sort_by_tvl_desc_def)
qed

text \<open>
  C10. Every entry of the merged dictionary of fees, and so every entry of the ranked
  list, has strictly positive fees; a record whose fees are zero or negative is skipped
  like a record without the metric. In the prediction-market loop every entry of the
  result has a strictly positive value locked, and a record with at most 100 locked (so
  also zero or a negative number) is skipped.
\<close>

theorem merged_entities_have_positive_fees:
  "(\<forall>g\<in>set (map snd (fees_loop interval [] ps)). fees g > 0)
   \<and> (\<forall>g\<in>set (fetch_fees_data response interval). fees g > 0)
   \<and> (dict_get (p_numbers p (interval_map interval)) = Some f \<and> f \<le> 0 \<longrightarrow>
        fees_loop interval gd (xs @ p # ys) = fees_loop interval gd (xs @ ys)
      \<and> fetch_fees_data (Inr (xs @ p # ys)) interval = fetch_fees_data (Inr (xs @ ys)) interval)
   \<and> (\<forall>g\<in>set (fetch_prediction_market_data response'). tvl g > 0)
   \<and> (bsc_tvl_of q = Some x \<and> x \<le> 100 \<longrightarrow>
        pm_loop gd' (us @ q # vs) = pm_loop gd' (us @ vs)
      \<and> fetch_prediction_market_data (Inr (us @ q # vs))
          = fetch_prediction_market_data (Inr (us @ vs)))"
proof -
  have "pm_loop gd' (us @ q # vs) = pm_loop gd' (us @ vs)
      \<and> fetch_prediction_market_data (Inr (us @ q # vs))
          = fetch_prediction_market_data (Inr (us @ vs))"
    if "bsc_tvl_of q = Some x" "x \<le> 100"
  proof -
    have "\<not> pm_accepted q"
      using that by (simp add: pm_accepted_def)
    then show ?thesis
      by (simp add: fetch_prediction_market_data_def pm_loop_skip)
  qed
  then show ?thesis
    using fees_positive [of interval ps response p f gd xs ys] positive_pm_output [of response']
    by blast
qed

theorem positive_fees_example_witness:
  "dict_get (p_numbers example_zero_metric (interval_map ''24h'')) = Some 0 \<and> (0::int) \<le> 0
   \<and> bsc_tvl_of example_pm_empty = Some 0 \<and> (0::rat) \<le> 100
   \<and> fetch_fees_data (Inr (example_zero_metric # example_ab)) ''24h''
       = fetch_fees_data (Inr example_ab) ''24h''
   \<and> map fees (fetch_fees_data (Inr example_ab) ''24h'') = [150, 80]
   \<and> list_all (\<lambda>g. fees g > 0) (fetch_fees_data (Inr example_ab) ''24h'')
   \<and> fetch_prediction_market_data (Inr (example_pm_empty # example_pm))
       = fetch_prediction_market_data (Inr example_pm)
   \<and> map tvl (fetch_prediction_market_data (Inr example_pm)) = [2300]
   \<and> list_all (\<lambda>g. tvl g > 0) (fetch_prediction_market_data (Inr example_pm))"
proof -
  note T = merged_entities_have_positive_fees
      [of "''24h''" "[]" "Inr example_ab" example_zero_metric 0 "[]" "[]" example_ab
          "Inr example_pm" example_pm_empty 0 "[]" "[]" example_pm]
  have h: "dict_get (p_numbers example_zero_metric (interval_map ''24h'')) = Some 0"
    by (simp add: example_zero_metric_def raw_def interval_map_def)
  have h': "bsc_tvl_of example_pm_empty = Some 0"
    by (simp add: example_pm_empty_def pm_raw_def bsc_tvl_of_def num_or_def)
  have v: "map fees (fetch_fees_data (Inr example_ab) ''24h'') = [150, 80]"
    by (simp add: fetch_fees_data_def sort_by_fees_desc_def example_ab_def example_eval)
  have v': "map tvl (fetch_prediction_market_data (Inr example_pm)) = [2300]"
    by (simp add: fetch_prediction_market_data_def sort_by_tvl_desc_def example_pm_def
        pm_example_eval)
  have 1: "fetch_fees_data (Inr (example_zero_metric # example_ab)) ''24h''
       = fetch_fees_data (Inr example_ab) ''24h''"
    using T h by simp
  have 2: "fetch_prediction_market_data (Inr (example_pm_empty # example_pm))
       = fetch_prediction_market_data (Inr example_pm)"
    using T h' by simp
  have 3: "list_all (\<lambda>g. fees g > 0) (fetch_fees_data (Inr example_ab) ''24h'')"
    using T by (simp add: list_all_iff)
  have 4: "list_all (\<lambda>g. tvl g > 0) (fetch_prediction_market_data (Inr example_pm))"
    using T by (simp add: list_all_iff)
  show ?thesis using h h' v v' 1 2 3 4 by simp
qed

section \<open>The slots of the image\<close>

lemma place_in_range:
  assumes "i < 10"
  shows "place (int i) p =
     Inr \<lparr> is_left = (i < 5),
           row_idx = (if i < 5 then int i else int i - 5),
           logo_left = (if i < 5 then LEFT_LOGO_X else RIGHT_LOGO_X) - RADIUS,
           logo_top = (if i < 5 then Y_POSITIONS_LEFT ! i else Y_POSITIONS_RIGHT ! (i - 5)),
           text_left = (if i < 5 then LEFT_LOGO_X else RIGHT_LOGO_X) + (LOGO_SIZE / 2) + 50,
           img_src = img_src_of p,
           shown_name = name p,
           shown_category = category p,
           fees_formatted = format_fees (Some (of_int (fees p))) \<rparr>"
proof (cases "i < 5")
  case True
  then show ?thesis
    by (simp add: place_def py_index_def Y_POSITIONS_LEFT_def Y_CENTERS_LEFT_def)
next
  case False
  then have "nat (int i - 5) = i - 5" by simp
  then show ?thesis
    using False assms
    by (simp add: place_def py_index_def Y_POSITIONS_RIGHT_def Y_CENTERS_RIGHT_def)
qed

lemma slot_loop_from:
  "k \<le> 10 \<Longrightarrow> slot_loop (int k) ps = Inr (map (\<lambda>(j, p). slot_at j p) (enumerate k (take (10 - k) ps)))"
proof (induction ps arbitrary: k)
  case Nil
  show ?case by simp
next
  case (Cons p ps)
  show ?case
  proof (cases "k = 10")
    case True
    then show ?thesis by simp
  next
    case False
    then have k: "k < 10" using Cons.prems by simp
    then have "10 - k = Suc (10 - Suc k)" by simp
    then have t: "take (10 - k) (p # ps) = p # take (10 - Suc k) ps"
      by (simp only: take_Suc_Cons)
    have s: "int k + 1 = int (Suc k)" by simp
    have ih: "slot_loop (int (Suc k)) ps = Inr (map (\<lambda>(j, p). slot_at j p) (enumerate (Suc k) (take (10 - Suc k) ps)))"
      using Cons.IH [of "Suc k"] k by simp
    show ?thesis
      using k unfolding t
      by (simp add: place_in_range [OF k] s ih slot_at_def del: of_nat_Suc)
  qed
qed

text \<open>
  C6. For a list of any length the slot loop ends without an exception and fills
  \<open>min (length protocols) 10\<close> slots: entries at rank 10 and beyond are dropped. The entry
  at rank \<open>i\<close> is placed in the left column at row \<open>i\<close> when \<open>i < 5\<close> and in the right
  column at row \<open>i - 5\<close> otherwise, at the measured position of that row.
\<close>

theorem slots_by_rank:
  "\<exists>slots. slot_loop 0 protocols = Inr slots
     \<and> length slots = min (length protocols) 10
     \<and> (\<forall>i < length slots.
           is_left (slots ! i) = (i < 5)
         \<and> row_idx (slots ! i) = (if i < 5 then int i else int i - 5)
         \<and> logo_top (slots ! i) = (if i < 5 then Y_POSITIONS_LEFT ! i else Y_POSITIONS_RIGHT ! (i - 5))
         \<and> logo_left (slots ! i) = (if i < 5 then LEFT_LOGO_X else RIGHT_LOGO_X) - RADIUS
         \<and> shown_name (slots ! i) = name (protocols ! i)
         \<and> shown_category (slots ! i) = category (protocols ! i)
         \<and> fees_formatted (slots ! i) = format_fees (Some (of_int (fees (protocols ! i)))))"
proof -
  let ?slots = "map (\<lambda>(j, p). slot_at j p) (enumerate 0 (take 10 protocols))"
  have r: "slot_loop 0 protocols = Inr ?slots"
    using slot_loop_from [of 0 protocols] by simp
  have l: "length ?slots = min (length protocols) 10"
    by simp
  have n: "?slots ! i = slot_at i (protocols ! i)" if "i < length ?slots" for i
    using that by (simp add: nth_enumerate_eq)
  show ?thesis
    apply (rule exI [of _ ?slots])
    apply (intro conjI r l allI impI)
    apply (simp_all only: n)
    apply (simp_all add: slot_at_def)
    done
qed

theorem slots_example_witness:
  "\<exists>slots. slot_loop 0 (replicate 12 example_group) = Inr slots
     \<and> length slots = 10
     \<and> is_left (slots ! 3) \<and> row_idx (slots ! 3) = 3
     \<and> \<not> is_left (slots ! 7) \<and> row_idx (slots ! 7) = 2
     \<and> logo_top (slots ! 7) = 1063 - 195 / 2"
proof -
  obtain slots where s: "slot_loop 0 (replicate 12 example_group) = Inr slots"
    and l: "length slots = min (length (replicate 12 example_group)) 10"
    and a: "\<forall>i < length slots.
           is_left (slots ! i) = (i < 5)
         \<and> row_idx (slots ! i) = (if i < 5 then int i else int i - 5)
         \<and> logo_top (slots ! i) = (if i < 5 then Y_POSITIONS_LEFT ! i else Y_POSITIONS_RIGHT ! (i - 5))
         \<and> logo_left (slots ! i) = (if i < 5 then LEFT_LOGO_X else RIGHT_LOGO_X) - RADIUS
         \<and> shown_name (slots ! i) = name (replicate 12 example_group ! i)
         \<and> shown_category (slots ! i) = category (replicate 12 example_group ! i)
         \<and> fees_formatted (slots ! i)
             = format_fees (Some (of_int (fees (replicate 12 example_group ! i))))"
    using slots_by_rank [of "replicate 12 example_group"] by blast
  have l10: "length slots = 10" using l by simp
  have 3: "is_left (slots ! 3) \<and> row_idx (slots ! 3) = 3"
    using a [rule_format, of 3] l10 by simp
  have 7: "\<not> is_left (slots ! 7) \<and> row_idx (slots ! 7) = 2
       \<and> logo_top (slots ! 7) = 1063 - 195 / 2"
    using a [rule_format, of 7] l10
    by (simp add: Y_POSITIONS_RIGHT_def Y_CENTERS_RIGHT_def RADIUS_def LOGO_SIZE_def)
  show ?thesis using s l10 3 7 by blast
qed

section \<open>The asset resolver\<close>

lemma fetch_logo_cases:
  "fetch_logo_as_base64 requests_get b64encode url = Inr ''''
   \<or> (\<exists>u r. url = Some u \<and> u \<noteq> [] \<and> requests_get u = Inr r \<and> status_code r = 200
        \<and> fetch_logo_as_base64 requests_get b64encode url =
            Inr (''data:'' @ (case content_type r of None \<Rightarrow> ''image/png'' | Some t \<Rightarrow> t)
                 @ '';base64,'' @ b64encode (content r)))"
  by (auto simp: fetch_logo_as_base64_def logo_try_body_def split: option.splits sum.splits)

lemma attach_logos_total:
  "\<exists>ps'. attach_logos requests_get b64encode ps = Inr ps'
     \<and> length ps' = length ps
     \<and> map name ps' = map name ps \<and> map fees ps' = map fees ps
     \<and> map category ps' = map category ps \<and> map logo ps' = map logo ps"
proof (induction ps)
  case Nil
  show ?case by simp
next
  case (Cons p ps)
  then obtain ps' where ih: "attach_logos requests_get b64encode ps = Inr ps'"
    "length ps' = length ps"
    "map name ps' = map name ps" "map fees ps' = map fees ps"
    "map category ps' = map category ps" "map logo ps' = map logo ps"
    by blast
  obtain s where s: "fetch_logo_as_base64 requests_get b64encode (logo p) = Inr s"
    using fetch_logo_cases [of requests_get b64encode "logo p"] by blast
  show ?case
    using ih s by simp
qed

lemma caption_depends:
  assumes "map name ps' = map name ps" and "map fees ps' = map fees ps"
  shows "get_caption_text ps' d interval = get_caption_text ps d interval"
proof -
  have len: "length ps' = length ps"
    using assms(1) by (metis length_map)
  have n: "name (ps' ! i) = name (ps ! i)" if "i < length ps" for i
    using assms(1) that len by (metis nth_map)
  have f: "fees (ps' ! i) = fees (ps ! i)" if "i < length ps" for i
    using assms(2) that len by (metis nth_map)
  have "map (\<lambda>(i, p). \<lparr> line_rank = i + 1, line_name = name p,
                          line_fees = format_fees (Some (of_int (fees p))) \<rparr>)
           (enumerate 0 (take 10 ps'))
      = map (\<lambda>(i, p). \<lparr> line_rank = i + 1, line_name = name p,
                          line_fees = format_fees (Some (of_int (fees p))) \<rparr>)
           (enumerate 0 (take 10 ps))"
    by (rule nth_equalityI) (simp_all add: len nth_enumerate_eq n f)
  then show ?thesis
    by (simp add: get_caption_text_def)
qed

lemma dapp_logo_cases:
  "dapp_logo_base64 page_request_get b64encode url = Inr ''''
   \<or> (\<exists>body. dapp_logo_base64 page_request_get b64encode url
          = Inr (''data:image/png;base64,'' @ body))"
  by (auto simp: dapp_logo_base64_def dapp_logo_try_body_def split: option.splits sum.splits)

text \<open>
  C7. For every logo reference and every behaviour of the network,
  \<open>fetch_logo_as_base64\<close> returns a string and raises nothing: the empty string or a data
  URI. It returns the empty string for a missing or empty reference, when the request
  raises (unreachable host, timeout) and when the status is not 200. The loop that stores
  the result in each entry ends without an exception and changes neither name, fees,
  category nor logo of any entry, so the caption built from the list is the same. The
  logo step of the dapps ranking likewise ends with the empty string or a data URI.
\<close>

theorem logo_fetch_never_raises:
  "(\<exists>s. fetch_logo_as_base64 requests_get b64encode url = Inr s
        \<and> (s = [] \<or> (\<exists>t body. s = ''data:'' @ t @ '';base64,'' @ body)))
   \<and> (\<not> truthy url \<longrightarrow> fetch_logo_as_base64 requests_get b64encode url = Inr [])
   \<and> (\<forall>u e. url = Some u \<and> requests_get u = Inl e \<longrightarrow>
         fetch_logo_as_base64 requests_get b64encode url = Inr [])
   \<and> (\<forall>u r. url = Some u \<and> requests_get u = Inr r \<and> status_code r \<noteq> 200 \<longrightarrow>
         fetch_logo_as_base64 requests_get b64encode url = Inr [])
   \<and> (\<exists>ps'. attach_logos requests_get b64encode ps = Inr ps'
         \<and> map name ps' = map name ps \<and> map fees ps' = map fees ps
         \<and> map category ps' = map category ps \<and> map logo ps' = map logo ps
         \<and> get_caption_text ps' d interval = get_caption_text ps d interval)
   \<and> (\<exists>s. dapp_logo_base64 requests_get b64encode url = Inr s
        \<and> (s = [] \<or> (\<exists>body. s = ''data:image/png;base64,'' @ body)))"
proof -
  have a: "\<exists>s. fetch_logo_as_base64 requests_get b64encode url = Inr s
        \<and> (s = [] \<or> (\<exists>t body. s = ''data:'' @ t @ '';base64,'' @ body))"
    using fetch_logo_cases [of requests_get b64encode url] by metis
  have b: "\<not> truthy url \<longrightarrow> fetch_logo_as_base64 requests_get b64encode url = Inr []"
    by (simp add: fetch_logo_as_base64_def truthy_def split: option.splits)
  have c: "\<forall>u e. url = Some u \<and> requests_get u = Inl e \<longrightarrow>
         fetch_logo_as_base64 requests_get b64encode url = Inr []"
    by (auto simp: fetch_logo_as_base64_def logo_try_body_def)
  have d: "\<forall>u r. url = Some u \<and> requests_get u = Inr r \<and> status_code r \<noteq> 200 \<longrightarrow>
         fetch_logo_as_base64 requests_get b64encode url = Inr []"
    by (auto simp: fetch_logo_as_base64_def logo_try_body_def)
  obtain ps' where p: "attach_logos requests_get b64encode ps = Inr ps'"
    "map name ps' = map name ps" "map fees ps' = map fees ps"
    "map category ps' = map category ps" "map logo ps' = map logo ps"
    using attach_logos_total [of requests_get b64encode ps] by blast
  have e: "get_caption_text ps' d interval = get_caption_text ps d interval"
    using p(2,3) by (rule caption_depends)
  have f: "\<exists>s. dapp_logo_base64 requests_get b64encode url = Inr s
        \<and> (s = [] \<or> (\<exists>body. s = ''data:image/png;base64,'' @ body))"
    using dapp_logo_cases [of requests_get b64encode url] by metis
  show ?thesis
    using a b c d p e f by blast
qed

theorem logo_fetch_example_witness:
  "\<not> truthy None
   \<and> fetch_logo_as_base64 example_http example_b64 None = Inr []
   \<and> example_http ''https://icons/slow.png'' = Inl Timeout
   \<and> fetch_logo_as_base64 example_http example_b64 (Some ''https://icons/slow.png'') = Inr []
   \<and> status_code \<lparr> status_code = 404, content_type = None, content = [] \<rparr> \<noteq> 200
   \<and> fetch_logo_as_base64 example_http example_b64 (Some ''https://icons/gone.png'') = Inr []
   \<and> fetch_logo_as_base64 example_http example_b64 (Some ''https://icons/beta.png'')
       = Inr ''data:image/png;base64,UE5H''"
proof -
  have t: "\<not> truthy None" by (simp add: truthy_def)
  have s: "example_http ''https://icons/slow.png'' = Inl Timeout"
    by (simp add: example_http_def)
  have g: "example_http ''https://icons/gone.png''
      = Inr \<lparr> status_code = 404, content_type = None, content = [] \<rparr>"
    by (simp add: example_http_def)
  have st: "status_code \<lparr> status_code = 404, content_type = None, content = [] \<rparr> \<noteq> 200"
    by simp
  have ok: "fetch_logo_as_base64 example_http example_b64 (Some ''https://icons/beta.png'')
       = Inr ''data:image/png;base64,UE5H''"
    by (simp add: fetch_logo_as_base64_def logo_try_body_def example_http_def example_b64_def)
  have 1: "fetch_logo_as_base64 example_http example_b64 None = Inr []"
    using logo_fetch_never_raises [of example_http example_b64 None] t by blast
  have 2: "fetch_logo_as_base64 example_http example_b64 (Some ''https://icons/slow.png'') = Inr []"
    using logo_fetch_never_raises [of example_http example_b64 "Some ''https://icons/slow.png''"] s
    by blast
  have 3: "fetch_logo_as_base64 example_http example_b64 (Some ''https://icons/gone.png'') = Inr []"
    using logo_fetch_never_raises [of example_http example_b64 "Some ''https://icons/gone.png''"] g
      st by blast
  show ?thesis
    using t s st 1 2 3 ok by blast
qed

section \<open>The result envelope\<close>



section \<open>The unit ladders\<close>

text \<open>
  The two ladders as the code has them. \<open>format_fees\<close> writes M from one million on,
  also above one billion, K from one thousand up to one million, and never B.
  \<open>format_currency\<close> writes B from one billion on, M from one million up to one billion
  and K from one thousand up to one million. In both, the number shown times the factor of
  the suffix is the value.
\<close>

lemma unit_ladders:
  "(suffix_of (format_fees (Some x)) = ''M'' \<longleftrightarrow> x \<ge> 1000000)
   \<and> (suffix_of (format_fees (Some x)) = ''K'' \<longleftrightarrow> 1000 \<le> x \<and> x < 1000000)
   \<and> suffix_of (format_fees v) \<noteq> ''B''
   \<and> shown_number (format_fees (Some x)) * unit_factor (suffix_of (format_fees (Some x))) = x
   \<and> (suffix_of (format_currency (Some x)) = ''B'' \<longleftrightarrow> x \<ge> 1000000000)
   \<and> (suffix_of (format_currency (Some x)) = ''M'' \<longleftrightarrow> 1000000 \<le> x \<and> x < 1000000000)
   \<and> (suffix_of (format_currency (Some x)) = ''K'' \<longleftrightarrow> 1000 \<le> x \<and> x < 1000000)
   \<and> shown_number (format_currency (Some x)) * unit_factor (suffix_of (format_currency (Some x)))
       = x"
  by (auto simp: format_fees_def format_currency_def unit_factor_def split: option.splits)

text \<open>
  C9. The ladder with B from one billion on is not followed by all numeric output: two
  billion in fees is written as 2000.00 with the suffix M by \<open>format_fees\<close>, which has no
  step for billions, and as 2.00 with the suffix B by \<open>format_currency\<close>.
\<close>

theorem fees_ladder_two_billion:
  "format_fees (Some 2000000000) = Fixed ''$'' 2000 2 ''M''
   \<and> format_currency (Some 2000000000) = Fixed ''$'' 2 2 ''B''"
  by (simp add: format_fees_def format_currency_def)

end
